theory Spec2Isabelle
  imports Complex_Main
begin

section \<open>The CSV importer of the airdrop lottery\<close>

text \<open>
  A shallow embedding of \<^verbatim>\<open>csv_import_script.py\<close>: the class
  \<^verbatim>\<open>AirdropLotteryImporter\<close> and \<^verbatim>\<open>main\<close>. Every method becomes a function that
  returns its result together with the list of effects it performed, in order: logger
  calls, invocations of the external \<^verbatim>\<open>aptos\<close> client and calls of \<^verbatim>\<open>time.sleep\<close>.
  What the program reads from outside (the CSV file, the behaviour of the external
  process) is an argument of the model.

  A Python \<^verbatim>\<open>str\<close> is modelled as a \<^typ>\<open>string\<close>; a \<^typ>\<open>char\<close> stands for the code
  point of the same number, so the model covers the strings over U+0000 .. U+00FF.
\<close>

subsection \<open>Python built-ins used by the script\<close>

datatype py_exception =
    ValueError | AttributeError | OverflowError | TimeoutExpired | OSError
  | UnicodeDecodeError

text \<open>How a run of the interpreter ends other than by returning.\<close>

datatype failure = SystemExit int | Uncaught py_exception

text \<open>
  \<^verbatim>\<open>range(start, stop, step)\<close>: a zero step raises \<^verbatim>\<open>ValueError\<close>, a positive step
  counts up while below \<^verbatim>\<open>stop\<close>, a negative step counts down while above it.
\<close>

function range_up :: "int \<Rightarrow> int \<Rightarrow> int \<Rightarrow> int list" where
  "range_up i stop step =
     (if 0 < step \<and> i < stop then i # range_up (i + step) stop step else [])"
  by pat_completeness auto
termination
  by (relation "measure (\<lambda>(i, stop, step). nat (stop - i))") auto

function range_down :: "int \<Rightarrow> int \<Rightarrow> int \<Rightarrow> int list" where
  "range_down i stop step =
     (if step < 0 \<and> stop < i then i # range_down (i + step) stop step else [])"
  by pat_completeness auto
termination
  by (relation "measure (\<lambda>(i, stop, step). nat (i - stop))") auto

definition py_range :: "int \<Rightarrow> int \<Rightarrow> int \<Rightarrow> py_exception + int list" where
  "py_range start stop step =
     (if step = 0 then Inl ValueError
      else if 0 < step then Inr (range_up start stop step)
      else Inr (range_down start stop step))"

text \<open>
  The slice \<^verbatim>\<open>xs[i:j]\<close>: a negative bound counts from the end, and both bounds are
  clipped to the list; a slice never raises.
\<close>

definition slice_bound :: "nat \<Rightarrow> int \<Rightarrow> nat" where
  "slice_bound n i = (if i < 0 then nat (max 0 (int n + i)) else min (nat i) n)"

definition py_slice :: "'a list \<Rightarrow> int \<Rightarrow> int \<Rightarrow> 'a list" where
  "py_slice xs i j =
     (let a = slice_bound (length xs) i; b = slice_bound (length xs) j
      in take (b - a) (drop a xs))"

text \<open>
  \<^verbatim>\<open>str.isspace\<close> on one code point below U+0100 (used by \<^verbatim>\<open>str.strip()\<close>), and the
  narrower \<^verbatim>\<open>Py_ISSPACE\<close> of the C runtime that the integer parser uses.
\<close>

definition c_isspace :: "char \<Rightarrow> bool" where
  "c_isspace c \<longleftrightarrow>
     c \<in> set [CHR 0x09, CHR 0x0A, CHR 0x0B, CHR 0x0C, CHR 0x0D, CHR 0x20]"

definition str_isspace :: "char \<Rightarrow> bool" where
  "str_isspace c \<longleftrightarrow>
     c \<in> set [CHR 0x09, CHR 0x0A, CHR 0x0B, CHR 0x0C, CHR 0x0D, CHR 0x1C, CHR 0x1D,
               CHR 0x1E, CHR 0x1F, CHR 0x20, CHR 0x85, CHR 0xA0]"

definition py_strip :: "string \<Rightarrow> string" where
  "py_strip s = rev (dropWhile str_isspace (rev (dropWhile str_isspace s)))"

text \<open>
  \<^verbatim>\<open>int(s, 16)\<close>. The interpreter first maps every code point from U+007F on to a
  space (when it is whitespace) or to a character that cannot be parsed (there is no
  decimal digit between U+007F and U+00FF), then the C parser skips leading
  whitespace, takes an optional sign, an optional \<^verbatim>\<open>0x\<close> or \<^verbatim>\<open>0X\<close> that may be followed
  by one underscore, at least one hexadecimal digit with single underscores allowed
  between digits, and trailing whitespace. Anything else is a \<^verbatim>\<open>ValueError\<close>.
\<close>

definition to_ascii :: "char \<Rightarrow> char" where
  "to_ascii c =
     (if (of_char c :: nat) < 127 then c
      else if str_isspace c then CHR 0x20 else CHR ''?'')"

definition hex_digit :: "char \<Rightarrow> nat option" where
  "hex_digit c =
     map_of [(CHR ''0'', 0), (CHR ''1'', 1), (CHR ''2'', 2), (CHR ''3'', 3), (CHR ''4'', 4),
             (CHR ''5'', 5), (CHR ''6'', 6), (CHR ''7'', 7), (CHR ''8'', 8), (CHR ''9'', 9),
             (CHR ''a'', 10), (CHR ''b'', 11), (CHR ''c'', 12), (CHR ''d'', 13),
             (CHR ''e'', 14), (CHR ''f'', 15),
             (CHR ''A'', 10), (CHR ''B'', 11), (CHR ''C'', 12), (CHR ''D'', 13),
             (CHR ''E'', 14), (CHR ''F'', 15)] c"

text \<open>
  The digit loop of the parser: \<open>prev\<close> is the character read last, the result is the
  number read and the unread rest.
\<close>

fun scan_digits :: "char \<Rightarrow> string \<Rightarrow> nat \<Rightarrow> py_exception + (nat \<times> string)" where
  "scan_digits prev [] acc =
     (if prev = CHR ''_'' then Inl ValueError else Inr (acc, []))"
| "scan_digits prev (c # cs) acc =
     (if c = CHR ''_'' then
        (if prev = CHR ''_'' then Inl ValueError else scan_digits c cs acc)
      else
        (case hex_digit c of
           Some d \<Rightarrow> scan_digits c cs (16 * acc + d)
         | None \<Rightarrow> if prev = CHR ''_'' then Inl ValueError else Inr (acc, c # cs)))"

definition skip_sign :: "string \<Rightarrow> int \<times> string" where
  "skip_sign t =
     (case t of
        [] \<Rightarrow> (1, t)
      | c # r \<Rightarrow> if c = CHR ''+'' then (1, r) else if c = CHR ''-'' then (- 1, r) else (1, t))"

definition skip_prefix :: "string \<Rightarrow> string" where
  "skip_prefix t =
     (case t of
        a # b # r \<Rightarrow>
          if a = CHR ''0'' \<and> (b = CHR ''x'' \<or> b = CHR ''X'')
          then (case r of [] \<Rightarrow> r | u # r' \<Rightarrow> if u = CHR ''_'' then r' else r)
          else t
      | _ \<Rightarrow> t)"

definition int_base16 :: "string \<Rightarrow> py_exception + int" where
  "int_base16 s =
     (let (sign, t) = skip_sign (dropWhile c_isspace (map to_ascii s));
          body = skip_prefix t
      in if take 1 body = ''_'' then Inl ValueError
         else
           (case scan_digits (CHR 0x00) body 0 of
              Inl e \<Rightarrow> Inl e
            | Inr (v, rest) \<Rightarrow>
                if length rest = length body then Inl ValueError
                else if dropWhile c_isspace rest \<noteq> [] then Inl ValueError
                else Inr (sign * int v)))"

text \<open>
  \<^verbatim>\<open>time.sleep(d)\<close> raises \<^verbatim>\<open>ValueError\<close> for a negative length and
  \<^verbatim>\<open>OverflowError\<close> for a length whose number of nanoseconds does not fit in a signed
  64-bit integer, that is from \<open>2 ^ 63\<close> nanoseconds (about \<^verbatim>\<open>9.22e9\<close> seconds) on, as
  CPython 3 does on a 64-bit platform. The float of the source is a real number here;
  infinities and NaN are outside the model.
\<close>

definition time_sleep :: "real \<Rightarrow> py_exception + unit" where
  "time_sleep d =
     (if d < 0 then Inl ValueError
      else if 2 ^ 63 \<le> d * 1000000000 then Inl OverflowError
      else Inr ())"

subsection \<open>The world outside the script\<close>

text \<open>
  A row as \<^verbatim>\<open>csv.DictReader\<close> yields it: a dictionary from column names to cells.
  A row shorter than the header has \<^verbatim>\<open>None\<close> under the columns it lacks.
\<close>

datatype cell = Str string | PyNone

type_synonym row = "string \<rightharpoonup> cell"

definition row_get :: "row \<Rightarrow> string \<Rightarrow> cell" where
  "row_get r k = (case r k of None \<Rightarrow> Str [] | Some c \<Rightarrow> c)"

text \<open>
  What opening and reading the file gives: no such file; the rows read before some
  other exception (a decoding error, a malformed structure, no permission); or all
  the rows.
\<close>

datatype csv_source = NotFound | ReadError "row list" | Rows "row list"

text \<open>
  The external process of one invocation: it cannot be started; or it runs for a
  duration (none when it never ends) and leaves an exit status and two streams; or
  it ends in time but what it wrote cannot be decoded as text.
\<close>

datatype process = CannotStart | Runs "nat option" int string string | Undecodable

text \<open>
  \<^verbatim>\<open>subprocess.run(cmd, capture_output=True, text=True, timeout=t)\<close>.
\<close>

definition subprocess_run :: "process \<Rightarrow> nat \<Rightarrow> py_exception + (int \<times> string \<times> string)" where
  "subprocess_run p t =
     (case p of
        CannotStart \<Rightarrow> Inl OSError
      | Undecodable \<Rightarrow> Inl UnicodeDecodeError
      | Runs d rc out err \<Rightarrow>
          (case d of
             None \<Rightarrow> Inl TimeoutExpired
           | Some n \<Rightarrow> if t < n then Inl TimeoutExpired else Inr (rc, out, err)))"

subsection \<open>Effects\<close>

datatype level = DEBUG | INFO | WARNING | ERROR

text \<open>One constructor for each logger call of the script, with the values it formats.\<close>

datatype message =
    InvalidAddress nat string
  | EmptyAddress nat
  | ReadCount nat
  | CsvNotFound
  | CsvReadFailed
  | BatchesCreated nat nat int
  | Executing nat
  | Command string int "string list"
  | Added nat
  | ExecFailed
  | Stdout string
  | Stderr string
  | ExecTimeout
  | Unexpected py_exception
  | Banner
  | ShowContract string
  | ShowLottery int
  | ShowBatchSize int
  | ShowDelay real
  | DryRunMode
  | NoValidAddresses
  | BatchHeader nat nat
  | DryRunBatch nat
  | BatchFailed nat
  | Waiting real
  | SummaryHeader
  | SummarySuccessful nat nat
  | SummaryFailed nat nat
  | SummaryProcessed nat nat
  | SomeFailed
  | AllSucceeded

text \<open>
  \<open>Invoke c l b t\<close> is the call of \<^verbatim>\<open>subprocess.run\<close> with the command line built from
  the contract address \<open>c\<close>, the lottery identifier \<open>l\<close> and the JSON list of the batch
  \<open>b\<close>, with the timeout \<open>t\<close>.
\<close>

datatype event =
    Log level message
  | Invoke string int "string list" nat
  | Sleep real

type_synonym 'a run = "'a \<times> event list"

definition emit :: "event list \<Rightarrow> 'a run \<Rightarrow> 'a run" where
  "emit evs r = (fst r, evs @ snd r)"

subsection \<open>The importer\<close>

record importer =
  contract_address :: string
  lottery_id :: int
  batch_size :: int
  delay :: real

text \<open>\<^verbatim>\<open>validate_address\<close>\<close>

definition validate_address :: "string \<Rightarrow> bool" where
  "validate_address address =
     (if take 2 address \<noteq> ''0x'' then False
      else
        (let hex_part = drop 2 address
         in if hex_part = [] then False
            else (case int_base16 hex_part of Inr _ \<Rightarrow> True | Inl _ \<Rightarrow> False)))"

text \<open>
  \<^verbatim>\<open>read_csv\<close>: the loop over the rows, numbered from 2, then the method with its
  two handlers, both of which end the process with status 1.
\<close>

fun read_rows :: "string \<Rightarrow> nat \<Rightarrow> row list \<Rightarrow> string list \<Rightarrow> (py_exception + string list) run" where
  "read_rows col row_num [] addresses = (Inr addresses, [])"
| "read_rows col row_num (r # rs) addresses =
     (case row_get r col of
        PyNone \<Rightarrow> (Inl AttributeError, [])
      | Str v \<Rightarrow>
          (let address = py_strip v
           in if address \<noteq> [] then
                (if validate_address address
                 then read_rows col (row_num + 1) rs (addresses @ [address])
                 else emit [Log WARNING (InvalidAddress row_num address)]
                        (read_rows col (row_num + 1) rs addresses))
              else emit [Log WARNING (EmptyAddress row_num)]
                     (read_rows col (row_num + 1) rs addresses)))"

definition read_csv :: "csv_source \<Rightarrow> string \<Rightarrow> (failure + string list) run" where
  "read_csv csv_file address_column =
     (case csv_file of
        NotFound \<Rightarrow> (Inl (SystemExit 1), [Log ERROR CsvNotFound])
      | ReadError rs \<Rightarrow>
          (Inl (SystemExit 1),
           snd (read_rows address_column 2 rs []) @ [Log ERROR CsvReadFailed])
      | Rows rs \<Rightarrow>
          (case read_rows address_column 2 rs [] of
             (Inl e, evs) \<Rightarrow> (Inl (SystemExit 1), evs @ [Log ERROR CsvReadFailed])
           | (Inr addresses, evs) \<Rightarrow>
               (Inr addresses, evs @ [Log INFO (ReadCount (length addresses))])))"

text \<open>\<^verbatim>\<open>create_batches\<close>\<close>

definition create_batches :: "importer \<Rightarrow> string list \<Rightarrow> (py_exception + string list list) run" where
  "create_batches imp addresses =
     (case py_range 0 (int (length addresses)) (batch_size imp) of
        Inl e \<Rightarrow> (Inl e, [])
      | Inr idxs \<Rightarrow>
          (let batches = map (\<lambda>i. py_slice addresses i (i + batch_size imp)) idxs
           in (Inr batches,
               [Log INFO (BatchesCreated (length addresses) (length batches)
                            (batch_size imp))])))"

text \<open>
  \<^verbatim>\<open>execute_add_participant\<close>, given the behaviour of the external process it starts.
\<close>

definition execute_add_participant :: "importer \<Rightarrow> string list \<Rightarrow> process \<Rightarrow> bool run" where
  "execute_add_participant imp addresses p =
     emit [Log INFO (Executing (length addresses)),
           Log DEBUG (Command (contract_address imp) (lottery_id imp) addresses),
           Invoke (contract_address imp) (lottery_id imp) addresses 120]
       (case subprocess_run p 120 of
          Inr (returncode, out, err) \<Rightarrow>
            if returncode = 0 then (True, [Log INFO (Added (length addresses))])
            else (False, [Log ERROR ExecFailed, Log ERROR (Stdout out),
                          Log ERROR (Stderr err)])
        | Inl TimeoutExpired \<Rightarrow> (False, [Log ERROR ExecTimeout])
        | Inl e \<Rightarrow> (False, [Log ERROR (Unexpected e)]))"

text \<open>
  The counters of \<^verbatim>\<open>import_participants\<close> and its loop over the batches. \<open>env i\<close> is
  the external process that the invocation for batch \<open>i\<close> would start.
\<close>

record counters =
  successful_batches :: nat
  failed_batches :: nat
  total_processed :: nat

fun submit :: "importer \<Rightarrow> bool \<Rightarrow> (nat \<Rightarrow> process) \<Rightarrow> nat \<Rightarrow> nat \<Rightarrow> string list list
                 \<Rightarrow> counters \<Rightarrow> (py_exception + counters) run" where
  "submit imp dry_run env n i [] c = (Inr c, [])"
| "submit imp dry_run env n i (batch # rest) c =
     emit [Log INFO (BatchHeader i n)]
       (if dry_run then
          emit [Log INFO (DryRunBatch (length batch))]
            (submit imp dry_run env n (i + 1) rest
               (c\<lparr>successful_batches := successful_batches c + 1,
                  total_processed := total_processed c + length batch\<rparr>))
        else
          (let (success, evs) = execute_add_participant imp batch (env i);
               c' = (if success
                     then c\<lparr>successful_batches := successful_batches c + 1,
                            total_processed := total_processed c + length batch\<rparr>
                     else c\<lparr>failed_batches := failed_batches c + 1\<rparr>);
               evs' = evs @ (if success then [] else [Log ERROR (BatchFailed i)])
           in if i < n then
                (case time_sleep (delay imp) of
                   Inl e \<Rightarrow> (Inl e, evs' @ [Log INFO (Waiting (delay imp))])
                 | Inr _ \<Rightarrow>
                     emit (evs' @ [Log INFO (Waiting (delay imp)), Sleep (delay imp)])
                       (submit imp dry_run env n (i + 1) rest c'))
              else emit evs' (submit imp dry_run env n (i + 1) rest c')))"

definition summary :: "counters \<Rightarrow> nat \<Rightarrow> nat \<Rightarrow> event list" where
  "summary c n_batches n_addresses =
     [Log INFO SummaryHeader,
      Log INFO (SummarySuccessful (successful_batches c) n_batches),
      Log INFO (SummaryFailed (failed_batches c) n_batches),
      Log INFO (SummaryProcessed (total_processed c) n_addresses),
      (if 0 < failed_batches c then Log WARNING SomeFailed else Log INFO AllSucceeded)]"

definition banner :: "importer \<Rightarrow> bool \<Rightarrow> event list" where
  "banner imp dry_run =
     [Log INFO Banner, Log INFO (ShowContract (contract_address imp)),
      Log INFO (ShowLottery (lottery_id imp)), Log INFO (ShowBatchSize (batch_size imp)),
      Log INFO (ShowDelay (delay imp))]
     @ (if dry_run then [Log INFO DryRunMode] else [])"

definition import_participants ::
    "importer \<Rightarrow> csv_source \<Rightarrow> string \<Rightarrow> bool \<Rightarrow> (nat \<Rightarrow> process) \<Rightarrow> (failure + unit) run" where
  "import_participants imp csv_file address_column dry_run env =
     emit (banner imp dry_run)
       (case read_csv csv_file address_column of
          (Inl f, evs) \<Rightarrow> (Inl f, evs)
        | (Inr addresses, evs) \<Rightarrow>
            emit evs
              (if addresses = [] then (Inr (), [Log ERROR NoValidAddresses])
               else
                 (case create_batches imp addresses of
                    (Inl e, evs1) \<Rightarrow> (Inl (Uncaught e), evs1)
                  | (Inr batches, evs1) \<Rightarrow>
                      emit evs1
                        (case submit imp dry_run env (length batches) 1 batches
                                \<lparr>successful_batches = 0, failed_batches = 0,
                                 total_processed = 0\<rparr> of
                           (Inl e, evs2) \<Rightarrow> (Inl (Uncaught e), evs2)
                         | (Inr c, evs2) \<Rightarrow>
                             (Inr (),
                              evs2 @ summary c (length batches) (length addresses))))))"

text \<open>
  \<^verbatim>\<open>main\<close> after the arguments are parsed, and the exit status of the process: that
  of \<^verbatim>\<open>sys.exit\<close>, 1 for an exception nobody caught, 0 when \<^verbatim>\<open>main\<close> returns.
  The flag \<^verbatim>\<open>--verbose\<close> only selects which log records are shown; a trace holds
  every logger call with its level, so the flag is not an argument here.
\<close>

record arguments =
  arg_csv :: csv_source
  arg_lottery_id :: int
  arg_contract_address :: string
  arg_address_column :: string
  arg_batch_size :: int
  arg_delay :: real
  arg_dry_run :: bool

definition main :: "arguments \<Rightarrow> (nat \<Rightarrow> process) \<Rightarrow> (failure + unit) run" where
  "main args env =
     import_participants
       \<lparr>contract_address = arg_contract_address args, lottery_id = arg_lottery_id args,
        batch_size = arg_batch_size args, delay = arg_delay args\<rparr>
       (arg_csv args) (arg_address_column args) (arg_dry_run args) env"

definition exit_status :: "failure + unit \<Rightarrow> int" where
  "exit_status r =
     (case r of Inr _ \<Rightarrow> 0 | Inl (SystemExit n) \<Rightarrow> n | Inl (Uncaught e) \<Rightarrow> 1)"

subsection \<open>Observations on a trace\<close>

text \<open>
  The batches handed to the external client, the pauses, the messages logged at one
  level, and the effects other than logging, each in the order of the trace.
\<close>

definition invocations :: "event list \<Rightarrow> string list list" where
  "invocations evs = concat (map (\<lambda>e. case e of Invoke c l b t \<Rightarrow> [b] | _ \<Rightarrow> []) evs)"

definition sleeps :: "event list \<Rightarrow> real list" where
  "sleeps evs = concat (map (\<lambda>e. case e of Sleep d \<Rightarrow> [d] | _ \<Rightarrow> []) evs)"

definition logged :: "level \<Rightarrow> event list \<Rightarrow> message list" where
  "logged lvl evs =
     concat (map (\<lambda>e. case e of Log l m \<Rightarrow> if l = lvl then [m] else [] | _ \<Rightarrow> []) evs)"

definition effects :: "event list \<Rightarrow> event list" where
  "effects evs = filter (\<lambda>e. case e of Log l m \<Rightarrow> False | _ \<Rightarrow> True) evs"

text \<open>
  The effects of a run that invokes the client once for each batch and pauses between
  two batches.
\<close>

fun paced :: "importer \<Rightarrow> string list list \<Rightarrow> event list" where
  "paced imp [] = []"
| "paced imp [b] = [Invoke (contract_address imp) (lottery_id imp) b 120]"
| "paced imp (b # bs) =
     Invoke (contract_address imp) (lottery_id imp) b 120 # Sleep (delay imp) # paced imp bs"



subsection \<open>Concrete inputs\<close>

text \<open>
  An importer with batches of two addresses and the default delay, five addresses, a
  file with one column holding them, and external processes that end at once.
\<close>

definition imp2 :: importer where
  "imp2 = \<lparr>contract_address = ''0xc0ffee'', lottery_id = 1, batch_size = 2, delay = 2\<rparr>"

definition five :: "string list" where
  "five = [''0x1'', ''0x2'', ''0x3'', ''0x4'', ''0x5'']"

definition row1 :: "string \<Rightarrow> row" where
  "row1 v = [''address'' \<mapsto> Str v]"

definition csv5 :: csv_source where
  "csv5 = Rows (map row1 five)"

definition accepts :: "nat \<Rightarrow> process" where
  "accepts i = Runs (Some 3) 0 ''ok'' []"

definition rejects_second :: "nat \<Rightarrow> process" where
  "rejects_second i = Runs (Some 3) (if i = 2 then 1 else 0) [] []"


definition args5 :: arguments where
  "args5 = \<lparr>arg_csv = csv5, arg_lottery_id = 1, arg_contract_address = ''0xc0ffee'',
            arg_address_column = ''address'', arg_batch_size = 2, arg_delay = 2,
            arg_dry_run = False\<rparr>"

section \<open>The Batcher\<close>

declare range_up.simps [simp del] range_down.simps [simp del]

lemma py_slice_chunk:
  assumes "0 \<le> i" "0 < step"
  shows "py_slice xs i (i + step) = take (nat step) (drop (nat i) xs)"
proof -
  have a: "slice_bound (length xs) i = min (nat i) (length xs)"
    using assms by (simp add: slice_bound_def)
  have b: "slice_bound (length xs) (i + step) = min (nat i + nat step) (length xs)"
    using assms by (simp add: slice_bound_def nat_add_distrib)
  show ?thesis
  proof (cases "nat i \<le> length xs")
    case True
    then show ?thesis
      unfolding py_slice_def Let_def a b by (simp add: min_def)
  next
    case False
    then show ?thesis
      unfolding py_slice_def Let_def a b by (simp add: min_def)
  qed
qed

lemma chunk_length:
  assumes "0 \<le> j" "j < int (length xs)" "0 < step"
  shows "length (py_slice xs j (j + step)) = min (nat step) (length xs - nat j)"
  using assms by (simp add: py_slice_chunk)

lemma range_up_concat:
  "0 < step \<Longrightarrow> 0 \<le> i \<Longrightarrow>
   concat (map (\<lambda>j. py_slice xs j (j + step)) (range_up i (int (length xs)) step))
     = drop (nat i) xs"
proof (induction i "int (length xs)" step rule: range_up.induct)
  case (1 i step)
  show ?case
  proof (cases "i < int (length xs)")
    case True
    have "concat (map (\<lambda>j. py_slice xs j (j + step))
                   (range_up (i + step) (int (length xs)) step))
            = drop (nat (i + step)) xs"
      using 1 True by simp
    moreover have "nat (i + step) = nat step + nat i"
      using 1 by (simp add: nat_add_distrib)
    ultimately show ?thesis
      using 1 True
      by (subst range_up.simps)
         (simp add: py_slice_chunk drop_drop [symmetric] del: drop_drop)
  next
    case False
    then show ?thesis using 1 by (subst range_up.simps) simp
  qed
qed

lemma range_up_bounds:
  "0 \<le> i \<Longrightarrow> j \<in> set (range_up i stop step) \<Longrightarrow> 0 \<le> j \<and> j < stop \<and> 0 < step"
proof (induction i stop step rule: range_up.induct)
  case (1 i stop step)
  from "1.prems"(2) have c: "0 < step \<and> i < stop"
    by (subst (asm) range_up.simps) (auto split: if_splits)
  from "1.prems"(2) c have "j = i \<or> j \<in> set (range_up (i + step) stop step)"
    by (subst (asm) range_up.simps) auto
  then show ?case using 1 c by auto
qed

lemma range_up_butlast:
  "j \<in> set (butlast (range_up i stop step)) \<Longrightarrow> j + step < stop"
proof (induction i stop step rule: range_up.induct)
  case (1 i stop step)
  from "1.prems" have c: "0 < step \<and> i < stop"
    by (subst (asm) range_up.simps) (auto split: if_splits)
  have e: "range_up i stop step = i # range_up (i + step) stop step"
    using c by (subst range_up.simps) simp
  show ?case
  proof (cases "range_up (i + step) stop step = []")
    case True
    then show ?thesis using "1.prems" e by simp
  next
    case False
    then have "i + step < stop"
      by (subst (asm) range_up.simps) (auto split: if_splits)
    moreover have "j = i \<or> j \<in> set (butlast (range_up (i + step) stop step))"
      using "1.prems" e False by auto
    ultimately show ?thesis using 1 c by auto
  qed
qed

lemma range_up_2500: "range_up 0 2500 1000 = [0, 1000, 2000]"
  by (simp add: range_up.simps)

lemma range_down_empty: "0 \<le> stop \<Longrightarrow> range_down 0 stop step = []"
  by (subst range_down.simps) simp

lemma create_batches_pos:
  assumes "0 < batch_size imp"
  shows "fst (create_batches imp xs) =
           Inr (map (\<lambda>i. py_slice xs i (i + batch_size imp))
                  (range_up 0 (int (length xs)) (batch_size imp)))"
  using assms by (simp add: create_batches_def py_range_def Let_def)

lemma create_batches_five:
  "create_batches imp2 five =
     (Inr [[''0x1'', ''0x2''], [''0x3'', ''0x4''], [''0x5'']],
      [Log INFO (BatchesCreated 5 3 2)])"
  by (simp add: create_batches_def py_range_def imp2_def five_def range_up.simps
      py_slice_def slice_bound_def)

text \<open>
  C1. With a positive batch size, \<^verbatim>\<open>create_batches\<close> returns batches whose
  concatenation, in order, is the input list itself, so no address is lost, duplicated
  or moved; and none of the batches is empty.
\<close>

theorem create_batches_roundtrip:
  assumes "0 < batch_size imp"
  shows "\<exists>batches. fst (create_batches imp xs) = Inr batches
           \<and> concat batches = xs \<and> [] \<notin> set batches"
proof -
  let ?bs = "map (\<lambda>i. py_slice xs i (i + batch_size imp))
               (range_up 0 (int (length xs)) (batch_size imp))"
  have "concat ?bs = xs"
    using range_up_concat [of "batch_size imp" 0 xs] assms by simp
  moreover have "[] \<notin> set ?bs"
  proof
    assume "[] \<in> set ?bs"
    then obtain j where j: "j \<in> set (range_up 0 (int (length xs)) (batch_size imp))"
      and e: "py_slice xs j (j + batch_size imp) = []" by auto
    from range_up_bounds [OF _ j] have b: "0 \<le> j" "j < int (length xs)" by simp_all
    from e have "length (py_slice xs j (j + batch_size imp)) = 0" by simp
    with chunk_length [OF b assms] assms b show False by simp
  qed
  ultimately show ?thesis using create_batches_pos [OF assms] by blast
qed

theorem create_batches_roundtrip_witness:
  "0 < batch_size imp2
   \<and> fst (create_batches imp2 five) = Inr [[''0x1'', ''0x2''], [''0x3'', ''0x4''], [''0x5'']]
   \<and> (\<exists>batches. fst (create_batches imp2 five) = Inr batches
         \<and> concat batches = five \<and> [] \<notin> set batches)"
proof -
  have h: "0 < batch_size imp2" by (simp add: imp2_def)
  show ?thesis
    using h create_batches_roundtrip [OF h, of five] by (simp add: create_batches_five)
qed

text \<open>
  C9. With a positive batch size, every batch has at most that many addresses and
  every batch but the last has exactly that many; 2500 addresses in batches of 1000
  give three batches of 1000, 1000 and 500 addresses.
\<close>

theorem create_batches_sizes:
  assumes "0 < batch_size imp"
  shows "\<exists>batches. fst (create_batches imp xs) = Inr batches
           \<and> (\<forall>b \<in> set batches. int (length b) \<le> batch_size imp)
           \<and> (\<forall>b \<in> set (butlast batches). int (length b) = batch_size imp)
           \<and> (length xs = 2500 \<and> batch_size imp = 1000
                \<longrightarrow> map length batches = [1000, 1000, 500])"
proof -
  let ?r = "range_up 0 (int (length xs)) (batch_size imp)"
  let ?f = "\<lambda>i. py_slice xs i (i + batch_size imp)"
  have le: "\<forall>b \<in> set (map ?f ?r). int (length b) \<le> batch_size imp"
  proof
    fix b assume "b \<in> set (map ?f ?r)"
    then obtain j where j: "j \<in> set ?r" and b: "b = ?f j" by auto
    from range_up_bounds [OF _ j] have "0 \<le> j" "j < int (length xs)" by simp_all
    from chunk_length [OF this assms] b assms show "int (length b) \<le> batch_size imp"
      by simp
  qed
  have eq: "\<forall>b \<in> set (butlast (map ?f ?r)). int (length b) = batch_size imp"
  proof
    fix b assume "b \<in> set (butlast (map ?f ?r))"
    then obtain j where j: "j \<in> set (butlast ?r)" and b: "b = ?f j"
      by (auto simp: map_butlast [symmetric])
    from j have "j \<in> set ?r" by (rule in_set_butlastD)
    from range_up_bounds [OF _ this] have jb: "0 \<le> j" "j < int (length xs)" by simp_all
    from range_up_butlast [OF j] have "j + batch_size imp < int (length xs)" .
    with chunk_length [OF jb assms] b assms jb show "int (length b) = batch_size imp"
      by simp
  qed
  have ex: "length xs = 2500 \<and> batch_size imp = 1000
              \<longrightarrow> map length (map ?f ?r) = [1000, 1000, 500]"
  proof
    assume a: "length xs = 2500 \<and> batch_size imp = 1000"
    then have "?r = [0, 1000, 2000]" by (simp add: range_up_2500)
    moreover have "length (py_slice xs 0 1000) = 1000"
      "length (py_slice xs 1000 2000) = 1000" "length (py_slice xs 2000 3000) = 500"
      using a by (simp_all add: py_slice_def slice_bound_def)
    ultimately show "map length (map ?f ?r) = [1000, 1000, 500]" using a by simp
  qed
  show ?thesis
  proof (intro exI conjI)
    show "fst (create_batches imp xs) = Inr (map ?f ?r)"
      by (rule create_batches_pos [OF assms])
  qed (rule le, rule eq, rule ex)
qed

theorem create_batches_sizes_witness:
  "0 < batch_size (imp2\<lparr>batch_size := 1000\<rparr>)
   \<and> (\<exists>batches. fst (create_batches (imp2\<lparr>batch_size := 1000\<rparr>) (replicate 2500 ''0x1''))
                   = Inr batches
         \<and> (\<forall>b \<in> set batches. length b \<le> 1000)
         \<and> (\<forall>b \<in> set (butlast batches). length b = 1000)
         \<and> map length batches = [1000, 1000, 500])"
proof -
  have h: "0 < batch_size (imp2\<lparr>batch_size := 1000\<rparr>)" by simp
  show ?thesis
    using h create_batches_sizes [OF h, of "replicate 2500 ''0x1''"] by simp
qed

section \<open>The Validator and the Reader\<close>

lemmas parse_defs = validate_address_def int_base16_def skip_sign_def skip_prefix_def
  to_ascii_def c_isspace_def str_isspace_def hex_digit_def

lemma emit_simps [simp]:
  "fst (emit evs r) = fst r" "snd (emit evs r) = evs @ snd r"
  "emit evs (x, ys) = (x, evs @ ys)"
  by (simp_all add: emit_def)

lemma obs_append [simp]:
  "invocations (xs @ ys) = invocations xs @ invocations ys"
  "sleeps (xs @ ys) = sleeps xs @ sleeps ys"
  "logged lvl (xs @ ys) = logged lvl xs @ logged lvl ys"
  "effects (xs @ ys) = effects xs @ effects ys"
  by (simp_all add: invocations_def sleeps_def logged_def effects_def)

lemma obs_Nil [simp]:
  "invocations [] = []" "sleeps [] = []" "logged lvl [] = []" "effects [] = []"
  by (simp_all add: invocations_def sleeps_def logged_def effects_def)

lemma obs_Cons [simp]:
  "invocations (Log l m # xs) = invocations xs"
  "invocations (Sleep d # xs) = invocations xs"
  "invocations (Invoke a k b t # xs) = b # invocations xs"
  "sleeps (Log l m # xs) = sleeps xs"
  "sleeps (Sleep d # xs) = d # sleeps xs"
  "sleeps (Invoke a k b t # xs) = sleeps xs"
  "logged lvl (Log l m # xs) = (if l = lvl then m # logged lvl xs else logged lvl xs)"
  "logged lvl (Sleep d # xs) = logged lvl xs"
  "logged lvl (Invoke a k b t # xs) = logged lvl xs"
  "effects (Log l m # xs) = effects xs"
  "effects (Sleep d # xs) = Sleep d # effects xs"
  "effects (Invoke a k b t # xs) = Invoke a k b t # effects xs"
  by (simp_all add: invocations_def sleeps_def logged_def effects_def)

lemma invocations_effects: "invocations (effects evs) = invocations evs"
proof (induction evs)
  case Nil
  show ?case by simp
next
  case (Cons a evs)
  then show ?case by (cases a) simp_all
qed


text \<open>Strings that the validator takes although they are not hexadecimal numerals.\<close>

lemma hex_digit_cases:
  assumes "hex_digit c \<noteq> None"
  shows "c \<in> set ''0123456789abcdefABCDEF''"
  using assms by (simp add: hex_digit_def split: if_splits)

lemma hex_digit_plain:
  assumes "hex_digit c \<noteq> None"
  shows "to_ascii c = c" "\<not> c_isspace c" "c \<noteq> CHR ''_''" "c \<noteq> CHR ''+''"
    "c \<noteq> CHR ''-''" "c \<noteq> CHR ''x''" "c \<noteq> CHR ''X''"
  using hex_digit_cases [OF assms] by (auto simp: to_ascii_def c_isspace_def)

lemma scan_digits_hex:
  "\<forall>c \<in> set s. hex_digit c \<noteq> None \<Longrightarrow> prev \<noteq> CHR ''_''
     \<Longrightarrow> \<exists>v. scan_digits prev s acc = Inr (v, [])"
proof (induction s arbitrary: prev acc)
  case Nil
  then show ?case by simp
next
  case (Cons c s)
  then obtain d where d: "hex_digit c = Some d" by auto
  have "c \<noteq> CHR ''_''" using hex_digit_plain(3) [of c] d by simp
  then show ?case using Cons d by simp
qed

lemma int_base16_hex:
  assumes "s \<noteq> []" "\<forall>c \<in> set s. hex_digit c \<noteq> None"
  shows "\<exists>v. int_base16 s = Inr v"
proof -
  obtain c r where s: "s = c # r" using assms(1) by (cases s) auto
  have c: "hex_digit c \<noteq> None" using assms(2) s by simp
  have "map to_ascii s = s"
    using assms(2) by (intro map_idI) (simp add: hex_digit_plain(1))
  moreover have "dropWhile c_isspace s = s"
    using s hex_digit_plain(2) [OF c] by simp
  moreover have "skip_sign s = (1, s)"
    using s hex_digit_plain(4,5) [OF c] by (simp add: skip_sign_def)
  moreover have "skip_prefix s = s"
  proof (cases r)
    case Nil
    then show ?thesis using s by (simp add: skip_prefix_def)
  next
    case (Cons b r')
    then have "hex_digit b \<noteq> None" using assms(2) s by simp
    from hex_digit_plain(6,7) [OF this] show ?thesis
      using s Cons by (simp add: skip_prefix_def)
  qed
  moreover have "take 1 s \<noteq> ''_''"
    using s hex_digit_plain(3) [OF c] by simp
  moreover obtain v where "scan_digits (CHR 0x00) s 0 = Inr (v, [])"
    using scan_digits_hex [OF assms(2), of "CHR 0x00" 0] by auto
  ultimately show ?thesis
    using assms(1) by (simp add: int_base16_def)
qed

lemma validate_address_hex:
  assumes "s \<noteq> []" "\<forall>c \<in> set s. hex_digit c \<noteq> None"
  shows "validate_address (''0x'' @ s)"
  using int_base16_hex [OF assms] assms(1) by (auto simp: validate_address_def)

text \<open>
  C2. The claim is that \<^verbatim>\<open>validate_address\<close> accepts exactly \<^verbatim>\<open>0x\<close> followed by one or
  more hexadecimal digits. The validator accepts all of these
  (\<open>validate_address_hex\<close>), but \<^verbatim>\<open>int(hex_part, 16)\<close> parses more than digits: a sign,
  a second \<^verbatim>\<open>0x\<close>, underscores between digits and surrounding whitespace. So strings
  that are not addresses pass: the validator returns true on each of the following.
\<close>

theorem validate_address_accepts_non_hex:
  "validate_address ''0x-1'' \<and> validate_address ''0x+f'' \<and> validate_address ''0x0x1''
   \<and> validate_address ''0x1_0'' \<and> validate_address ''0x 1''"
  by (simp add: parse_defs)

text \<open>The reader on rows that all have a cell under the address column.\<close>

lemma read_rows_cells:
  "map (\<lambda>r. row_get r col) rs = map Str vs \<Longrightarrow>
   fst (read_rows col n rs acc)
     = Inr (acc @ [a \<leftarrow> map py_strip vs. a \<noteq> [] \<and> validate_address a])
   \<and> length (logged WARNING (snd (read_rows col n rs acc)))
       = length [a \<leftarrow> map py_strip vs. \<not> (a \<noteq> [] \<and> validate_address a)]
   \<and> effects (snd (read_rows col n rs acc)) = []
   \<and> logged ERROR (snd (read_rows col n rs acc)) = []"
proof (induction rs arbitrary: vs n acc)
  case Nil
  then show ?case by simp
next
  case (Cons r rs)
  then obtain v vs' where vs: "vs = v # vs'" "row_get r col = Str v"
    "map (\<lambda>r. row_get r col) rs = map Str vs'"
    by (cases vs) auto
  show ?case
    using Cons.IH [OF vs(3)] vs(1,2) by (simp add: Let_def)
qed


lemma read_rows_effects:
  "effects (snd (read_rows col n rs acc)) = []"
proof (induction rs arbitrary: n acc)
  case Nil
  then show ?case by simp
next
  case (Cons r rs)
  then show ?case by (cases "row_get r col") (simp_all add: Let_def)
qed

lemma read_csv_effects: "effects (snd (read_csv src col)) = []"
proof (cases src)
  case NotFound
  then show ?thesis by (simp add: read_csv_def)
next
  case (ReadError rs)
  then show ?thesis by (simp add: read_csv_def read_rows_effects)
next
  case (Rows rs)
  obtain res evs where r: "read_rows col 2 rs [] = (res, evs)"
    by (cases "read_rows col 2 rs []")
  then have "effects evs = []" using read_rows_effects [of col 2 rs "[]"] by simp
  then show ?thesis using Rows r by (cases res) (simp_all add: read_csv_def)
qed


lemma read_csv5: "read_csv csv5 ''address'' = (Inr five, [Log INFO (ReadCount 5)])"
  by (simp add: csv5_def five_def read_csv_def row1_def row_get_def py_strip_def parse_defs)

text \<open>
  C6. On the rows \<^verbatim>\<open>0xAB\<close>, empty, \<^verbatim>\<open>notHex\<close>, \<^verbatim>\<open>0x1\<close> the reader returns \<^verbatim>\<open>0xAB\<close> and
  \<^verbatim>\<open>0x1\<close> in this order and logs two warnings, one for the empty row 3 and one for
  the malformed row 4. In general, when every row has a cell under the address column,
  the result is the list of the stripped cells, in file order, without the empty and
  the invalid ones and with nothing else removed or moved, and there is one warning
  for each cell left out.
\<close>

theorem read_csv_skips_in_order:
  "read_csv (Rows [row1 ''0xAB'', row1 [], row1 ''notHex'', row1 ''0x1'']) ''address''
     = (Inr [''0xAB'', ''0x1''],
        [Log WARNING (EmptyAddress 3), Log WARNING (InvalidAddress 4 ''notHex''),
         Log INFO (ReadCount 2)])
   \<and> (map (\<lambda>r. row_get r col) rs = map Str vs \<longrightarrow>
        fst (read_csv (Rows rs) col)
          = Inr [a \<leftarrow> map py_strip vs. a \<noteq> [] \<and> validate_address a]
        \<and> length (logged WARNING (snd (read_csv (Rows rs) col)))
            = length [a \<leftarrow> map py_strip vs. \<not> (a \<noteq> [] \<and> validate_address a)])"
proof (intro conjI impI)
  show "read_csv (Rows [row1 ''0xAB'', row1 [], row1 ''notHex'', row1 ''0x1'']) ''address''
     = (Inr [''0xAB'', ''0x1''],
        [Log WARNING (EmptyAddress 3), Log WARNING (InvalidAddress 4 ''notHex''),
         Log INFO (ReadCount 2)])"
    by (simp add: read_csv_def row1_def row_get_def py_strip_def parse_defs)
next
  assume a: "map (\<lambda>r. row_get r col) rs = map Str vs"
  obtain res evs where r: "read_rows col 2 rs [] = (res, evs)"
    by (cases "read_rows col 2 rs []")
  from read_rows_cells [OF a, of 2 "[]"] r
  have res: "res = Inr [a \<leftarrow> map py_strip vs. a \<noteq> [] \<and> validate_address a]"
    and w: "length (logged WARNING evs)
              = length [a \<leftarrow> map py_strip vs. \<not> (a \<noteq> [] \<and> validate_address a)]"
    by simp_all
  show "fst (read_csv (Rows rs) col)
          = Inr [a \<leftarrow> map py_strip vs. a \<noteq> [] \<and> validate_address a]"
    using r res by (simp add: read_csv_def)
  show "length (logged WARNING (snd (read_csv (Rows rs) col)))
            = length [a \<leftarrow> map py_strip vs. \<not> (a \<noteq> [] \<and> validate_address a)]"
    using r res w by (simp add: read_csv_def)
qed

theorem read_csv_skips_in_order_witness:
  "map (\<lambda>r. row_get r ''address'') [row1 ''0x2'', row1 ''  '', row1 '' 0x1 '', row1 ''0x2'']
     = map Str [''0x2'', ''  '', '' 0x1 '', ''0x2'']
   \<and> fst (read_csv (Rows [row1 ''0x2'', row1 ''  '', row1 '' 0x1 '', row1 ''0x2''])
            ''address'')
       = Inr [''0x2'', ''0x1'', ''0x2'']
   \<and> length (logged WARNING
        (snd (read_csv (Rows [row1 ''0x2'', row1 ''  '', row1 '' 0x1 '', row1 ''0x2''])
               ''address''))) = 1"
proof -
  have h: "map (\<lambda>r. row_get r ''address'')
             [row1 ''0x2'', row1 ''  '', row1 '' 0x1 '', row1 ''0x2'']
           = map Str [''0x2'', ''  '', '' 0x1 '', ''0x2'']"
    by (simp add: row1_def row_get_def)
  have f: "[a \<leftarrow> map py_strip [''0x2'', ''  '', '' 0x1 '', ''0x2''].
              a \<noteq> [] \<and> validate_address a] = [''0x2'', ''0x1'', ''0x2'']"
    by (simp add: py_strip_def parse_defs)
  have g: "length [a \<leftarrow> map py_strip [''0x2'', ''  '', '' 0x1 '', ''0x2''].
              \<not> (a \<noteq> [] \<and> validate_address a)] = 1"
    by (simp add: py_strip_def parse_defs)
  show ?thesis
    using h f g
      read_csv_skips_in_order [of "''address''"
        "[row1 ''0x2'', row1 ''  '', row1 '' 0x1 '', row1 ''0x2'']"
        "[''0x2'', ''  '', '' 0x1 '', ''0x2'']"]
    by simp
qed

section \<open>The Executor and the Orchestrator\<close>


lemma execute_effects:
  "effects (snd (execute_add_participant imp b p))
     = [Invoke (contract_address imp) (lottery_id imp) b 120]"
  by (simp add: execute_add_participant_def split: sum.split py_exception.split prod.split)

lemma execute_invocations: "invocations (snd (execute_add_participant imp b p)) = [b]"
  using execute_effects [of imp b p] invocations_effects [of "snd (execute_add_participant imp b p)"]
  by simp

lemma paced_invocations: "invocations (paced imp bs) = bs"
  by (induction imp bs rule: paced.induct) simp_all


lemma create_batches_trace:
  "fst (create_batches imp xs) = Inr bs \<Longrightarrow>
   create_batches imp xs
     = (Inr bs, [Log INFO (BatchesCreated (length xs) (length bs) (batch_size imp))])"
  by (auto simp: create_batches_def Let_def split: sum.splits)

lemma create_batches_zero:
  "batch_size imp = 0 \<Longrightarrow> create_batches imp xs = (Inl ValueError, [])"
  by (simp add: create_batches_def py_range_def)

lemma create_batches_negative:
  "batch_size imp < 0 \<Longrightarrow>
   create_batches imp xs
     = (Inr [], [Log INFO (BatchesCreated (length xs) 0 (batch_size imp))])"
  by (simp add: create_batches_def py_range_def range_down_empty)


lemma create_batches_fails:
  "fst (create_batches imp xs) = Inl e \<Longrightarrow> create_batches imp xs = (Inl ValueError, [])"
  by (auto simp: create_batches_def py_range_def Let_def split: if_splits)

lemma submit_dry:
  "fst (submit imp True env n i bs c)
     = Inr (c\<lparr>successful_batches := successful_batches c + length bs,
              total_processed := total_processed c + length (concat bs)\<rparr>)
   \<and> effects (snd (submit imp True env n i bs c)) = []
   \<and> logged WARNING (snd (submit imp True env n i bs c)) = []
   \<and> logged ERROR (snd (submit imp True env n i bs c)) = []"
  by (induction bs arbitrary: i c) simp_all

lemma submit_live:
  assumes "time_sleep (delay imp) = Inr ()"
  shows "i + length bs = Suc n \<Longrightarrow>
         (\<exists>c'. fst (submit imp False env n i bs c) = Inr c'
            \<and> successful_batches c' + failed_batches c'
                = successful_batches c + failed_batches c + length bs)
         \<and> effects (snd (submit imp False env n i bs c)) = paced imp bs"
proof (induction bs arbitrary: i c)
  case Nil
  then show ?case by simp
next
  case (Cons b bs)
  obtain ok evs where e: "execute_add_participant imp b (env i) = (ok, evs)"
    by (cases "execute_add_participant imp b (env i)")
  have fx: "effects evs = [Invoke (contract_address imp) (lottery_id imp) b 120]"
    using execute_effects [of imp b "env i"] e by simp
  have step: "Suc i + length bs = Suc n" using Cons.prems by simp
  show ?case
  proof (cases bs)
    case Nil
    then have "\<not> i < n" using Cons.prems by simp
    then show ?thesis using Nil e fx by (simp add: Let_def)
  next
    case (Cons b' bs')
    then have lt: "i < n" using Cons.prems by simp
    note ih = Cons.IH [OF step]
    have pc: "paced imp (b # bs)
                = Invoke (contract_address imp) (lottery_id imp) b 120
                    # Sleep (delay imp) # paced imp bs"
      using Cons by simp
    show ?thesis
      unfolding pc
      using lt e fx assms
        ih [of "c\<lparr>successful_batches := successful_batches c + 1,
                    total_processed := total_processed c + length b\<rparr>"]
        ih [of "c\<lparr>failed_batches := failed_batches c + 1\<rparr>"]
      by (cases ok) (auto simp add: Let_def)
  qed
qed

lemma import_run:
  assumes "read_csv src col = (Inr addrs, evs0)" "addrs \<noteq> []"
    "create_batches imp addrs = (Inr bs, evs1)"
  shows "import_participants imp src col dry env =
     (case submit imp dry env (length bs) 1 bs
             \<lparr>successful_batches = 0, failed_batches = 0, total_processed = 0\<rparr> of
        (Inl e, evs2) \<Rightarrow> (Inl (Uncaught e), banner imp dry @ evs0 @ evs1 @ evs2)
      | (Inr c, evs2) \<Rightarrow>
          (Inr (), banner imp dry @ evs0 @ evs1 @ evs2
                     @ summary c (length bs) (length addrs)))"
  using assms by (simp add: import_participants_def split: prod.split sum.split)

lemma import_unreadable:
  assumes "read_csv src col = (Inl f, evs0)"
  shows "import_participants imp src col dry env = (Inl f, banner imp dry @ evs0)"
  using assms by (simp add: import_participants_def)

lemma import_empty:
  assumes "read_csv src col = (Inr [], evs0)"
  shows "import_participants imp src col dry env
           = (Inr (), banner imp dry @ evs0 @ [Log ERROR NoValidAddresses])"
  using assms by (simp add: import_participants_def)

lemma import_no_batches:
  assumes "read_csv src col = (Inr addrs, evs0)" "addrs \<noteq> []"
    "create_batches imp addrs = (Inl e, evs1)"
  shows "import_participants imp src col dry env
           = (Inl (Uncaught e), banner imp dry @ evs0 @ evs1)"
  using assms by (simp add: import_participants_def)

lemma banner_effects [simp]: "effects (banner imp dry) = []"
  by (simp add: banner_def)

lemma summary_effects [simp]: "effects (summary c n m) = []"
  by (simp add: summary_def)

lemma import_live_effects:
  assumes r: "read_csv src col = (Inr addrs, evs0)" and ne: "addrs \<noteq> []"
    and cb: "fst (create_batches imp addrs) = Inr bs"
    and d: "time_sleep (delay imp) = Inr ()"
  shows "fst (import_participants imp src col False env) = Inr ()
         \<and> effects (snd (import_participants imp src col False env)) = paced imp bs"
proof -
  let ?c0 = "\<lparr>successful_batches = 0, failed_batches = 0, total_processed = 0\<rparr>"
  obtain res evs2 where s: "submit imp False env (length bs) 1 bs ?c0 = (res, evs2)"
    by (cases "submit imp False env (length bs) 1 bs ?c0")
  from submit_live [OF d, of 1 bs "length bs" env ?c0] s
  obtain c where c: "res = Inr c" and fx: "effects evs2 = paced imp bs" by auto
  have e0: "effects evs0 = []" using read_csv_effects [of src col] r by simp
  show ?thesis
    using import_run [OF r ne create_batches_trace [OF cb], of False env] s c fx e0
    by simp
qed

lemma import_dry_effects: "effects (snd (import_participants imp src col True env)) = []"
proof -
  obtain res evs0 where r: "read_csv src col = (res, evs0)" by (cases "read_csv src col")
  have e0: "effects evs0 = []" using read_csv_effects [of src col] r by simp
  show ?thesis
  proof (cases res)
    case (Inl f)
    then show ?thesis using import_unreadable [of src col f evs0] r e0 by simp
  next
    case (Inr addrs)
    show ?thesis
    proof (cases "addrs = []")
      case True
      then show ?thesis using import_empty [of src col evs0] r Inr e0 by simp
    next
      case False
      obtain res1 evs1 where cb: "create_batches imp addrs = (res1, evs1)"
        by (cases "create_batches imp addrs")
      show ?thesis
      proof (cases res1)
        case (Inl e)
        then have "evs1 = []" using create_batches_fails [of imp addrs e] cb by simp
        then show ?thesis
          using import_no_batches [of src col addrs evs0 imp e evs1] r Inr False cb Inl e0
          by simp
      next
        case bs: (Inr bs)
        then have e1: "effects evs1 = []"
          using create_batches_trace [of imp addrs bs] cb by auto
        let ?c0 = "\<lparr>successful_batches = 0, failed_batches = 0, total_processed = 0\<rparr>"
        obtain res2 evs2 where s: "submit imp True env (length bs) 1 bs ?c0 = (res2, evs2)"
          by (cases "submit imp True env (length bs) 1 bs ?c0")
        from submit_dry [of imp env "length bs" 1 bs ?c0] s
        obtain c where c: "res2 = Inr c" and e2: "effects evs2 = []" by auto
        show ?thesis
          using import_run [of src col addrs evs0 imp bs evs1 True env]
            r Inr False cb bs s c e0 e1 e2
          by simp
      qed
    qed
  qed
qed

lemma banner_invocations [simp]: "invocations (banner imp dry) = []"
  by (simp add: banner_def)

lemma summary_invocations [simp]: "invocations (summary c n m) = []"
  by (simp add: summary_def)

lemma read_csv_invocations:
  "read_csv src col = (res, evs0) \<Longrightarrow> invocations evs0 = []"
  using read_csv_effects [of src col] invocations_effects [of evs0] by simp

lemma submit_sleep_fails:
  assumes "time_sleep (delay imp) = Inl e" "i < n"
  shows "fst (submit imp False env n i (b # rest) c) = Inl e
         \<and> invocations (snd (submit imp False env n i (b # rest) c)) = [b]"
proof -
  obtain ok evs where x: "execute_add_participant imp b (env i) = (ok, evs)"
    by (cases "execute_add_participant imp b (env i)")
  have "invocations evs = [b]" using execute_invocations [of imp b "env i"] x by simp
  then show ?thesis using assms x by (simp add: Let_def)
qed

lemma submit_last:
  assumes "\<not> i < n"
  shows "(\<exists>c'. fst (submit imp False env n i [b] c) = Inr c')
         \<and> invocations (snd (submit imp False env n i [b] c)) = [b]"
proof -
  obtain ok evs where x: "execute_add_participant imp b (env i) = (ok, evs)"
    by (cases "execute_add_participant imp b (env i)")
  have "invocations evs = [b]" using execute_invocations [of imp b "env i"] x by simp
  then show ?thesis using assms x by (simp add: Let_def)
qed

lemma import_run_obs:
  assumes "read_csv src col = (Inr addrs, evs0)" "addrs \<noteq> []"
    "fst (create_batches imp addrs) = Inr bs"
    "submit imp dry env (length bs) 1 bs
       \<lparr>successful_batches = 0, failed_batches = 0, total_processed = 0\<rparr> = (res, evs2)"
  shows "fst (import_participants imp src col dry env)
           = (case res of Inl e \<Rightarrow> Inl (Uncaught e) | Inr c \<Rightarrow> Inr ())
         \<and> invocations (snd (import_participants imp src col dry env)) = invocations evs2"
  using import_run [OF assms(1,2) create_batches_trace [OF assms(3)], of dry env]
    assms(4) read_csv_invocations [OF assms(1)]
  by (cases res) simp_all

text \<open>
  What ends a run that is not a dry run, and which batches it hands to the client:
  neither depends on what the external processes do.
\<close>

lemma import_live_fate:
  assumes r: "read_csv src col = (Inr addrs, evs0)" and ne: "addrs \<noteq> []"
    and cb: "fst (create_batches imp addrs) = Inr bs"
  shows "fst (import_participants imp src col False env)
           = (if 2 \<le> length bs
              then (case time_sleep (delay imp) of
                      Inl e \<Rightarrow> Inl (Uncaught e) | Inr u \<Rightarrow> Inr ())
              else Inr ())
         \<and> invocations (snd (import_participants imp src col False env))
             = (if 2 \<le> length bs \<and> time_sleep (delay imp) \<noteq> Inr ()
                then [hd bs] else bs)"
proof (cases "time_sleep (delay imp)")
  case (Inr u)
  then have d: "time_sleep (delay imp) = Inr ()" by simp
  from import_live_effects [OF r ne cb d, of env]
  have "fst (import_participants imp src col False env) = Inr ()"
    and "invocations (snd (import_participants imp src col False env)) = bs"
    using invocations_effects [of "snd (import_participants imp src col False env)"]
    by (simp_all add: paced_invocations)
  then show ?thesis using d by simp
next
  case (Inl e)
  let ?c0 = "\<lparr>successful_batches = 0, failed_batches = 0, total_processed = 0\<rparr>"
  obtain res evs2 where s: "submit imp False env (length bs) 1 bs ?c0 = (res, evs2)"
    by (cases "submit imp False env (length bs) 1 bs ?c0")
  note obs = import_run_obs [OF r ne cb s]
  show ?thesis
  proof (cases bs)
    case Nil
    then show ?thesis using obs s by auto
  next
    case (Cons b rest)
    show ?thesis
    proof (cases rest)
      case Nil
      have "\<not> (1::nat) < length bs" using Cons Nil by simp
      from submit_last [OF this, of imp env b ?c0] s Cons Nil obs
      show ?thesis by (auto simp del: submit.simps)
    next
      case c2: (Cons b' rest')
      have "(1::nat) < length bs" using Cons c2 by simp
      from submit_sleep_fails [OF Inl this, of env b rest ?c0] s Cons obs Inl c2
      show ?thesis by (auto simp del: submit.simps)
    qed
  qed
qed






lemma import_dry_run:
  assumes r: "read_csv src col = (Inr addrs, evs0)" and ne: "addrs \<noteq> []"
    and cb: "fst (create_batches imp addrs) = Inr bs"
  shows "\<exists>evs2. import_participants imp src col True env
           = (Inr (),
              banner imp True @ evs0
                @ [Log INFO (BatchesCreated (length addrs) (length bs) (batch_size imp))]
                @ evs2
                @ summary \<lparr>successful_batches = length bs, failed_batches = 0,
                           total_processed = length (concat bs)\<rparr>
                    (length bs) (length addrs))
         \<and> effects evs2 = [] \<and> logged WARNING evs2 = [] \<and> logged ERROR evs2 = []"
proof -
  let ?c0 = "\<lparr>successful_batches = 0, failed_batches = 0, total_processed = 0\<rparr>"
  obtain res evs2 where s: "submit imp True env (length bs) 1 bs ?c0 = (res, evs2)"
    by (cases "submit imp True env (length bs) 1 bs ?c0")
  from submit_dry [of imp env "length bs" 1 bs ?c0] s
  have res: "res = Inr \<lparr>successful_batches = length bs, failed_batches = 0,
                         total_processed = length (concat bs)\<rparr>"
    and q: "effects evs2 = []" "logged WARNING evs2 = []" "logged ERROR evs2 = []"
    by simp_all
  show ?thesis
    using import_run [OF r ne create_batches_trace [OF cb], of True env] s res q
    by simp
qed

text \<open>
  A delay that \<^verbatim>\<open>time.sleep\<close> rejects ends a run of several batches after the first
  submission, with the exception of \<^verbatim>\<open>time.sleep\<close> and exit status 1: so for a delay
  of \<^verbatim>\<open>1e10\<close> seconds, and so for a negative delay.
\<close>

lemma rejected_delay_ends_run:
  "fst (import_participants (imp2\<lparr>delay := 10000000000\<rparr>) csv5 ''address'' False accepts)
     = Inl (Uncaught OverflowError)
   \<and> invocations
        (snd (import_participants (imp2\<lparr>delay := 10000000000\<rparr>) csv5 ''address'' False
               accepts))
       = [[''0x1'', ''0x2'']]
   \<and> fst (import_participants (imp2\<lparr>delay := - 1\<rparr>) csv5 ''address'' False accepts)
       = Inl (Uncaught ValueError)
   \<and> exit_status (fst (main (args5\<lparr>arg_delay := 10000000000\<rparr>) accepts)) = 1"
proof -
  have f: "five \<noteq> []" by (simp add: five_def)
  have c: "fst (create_batches (imp2\<lparr>delay := d\<rparr>) five)
             = Inr [[''0x1'', ''0x2''], [''0x3'', ''0x4''], [''0x5'']]" for d
    by (simp add: create_batches_def py_range_def imp2_def five_def range_up.simps
        py_slice_def slice_bound_def)
  have m: "main (args5\<lparr>arg_delay := 10000000000\<rparr>) accepts
             = import_participants (imp2\<lparr>delay := 10000000000\<rparr>) csv5 ''address'' False
                 accepts"
    by (simp add: main_def args5_def imp2_def)
  show ?thesis
    unfolding m
    using import_live_fate [OF read_csv5 f c, of 10000000000 accepts]
      import_live_fate [OF read_csv5 f c, of "- 1" accepts]
    by (simp add: time_sleep_def exit_status_def)
qed







text \<open>
  C5. In a dry run the external client is never invoked, whatever the input. When
  the run gets to the batches, it ends normally, and its summary counts every batch
  as successful, no batch as failed, and the addresses of all batches as processed.
\<close>

theorem dry_run_never_invokes:
  "invocations (snd (import_participants imp src col True env)) = []
   \<and> (read_csv src col = (Inr addrs, evs0) \<and> addrs \<noteq> []
        \<and> fst (create_batches imp addrs) = Inr bs \<longrightarrow>
        fst (import_participants imp src col True env) = Inr ()
        \<and> (\<exists>pre. snd (import_participants imp src col True env)
              = pre @ [Log INFO SummaryHeader,
                       Log INFO (SummarySuccessful (length bs) (length bs)),
                       Log INFO (SummaryFailed 0 (length bs)),
                       Log INFO (SummaryProcessed (length (concat bs)) (length addrs)),
                       Log INFO AllSucceeded]))"
proof (intro conjI impI)
  show "invocations (snd (import_participants imp src col True env)) = []"
    using import_dry_effects [of imp src col env]
      invocations_effects [of "snd (import_participants imp src col True env)"]
    by simp
next
  assume a: "read_csv src col = (Inr addrs, evs0) \<and> addrs \<noteq> []
        \<and> fst (create_batches imp addrs) = Inr bs"
  then obtain evs2 where run: "import_participants imp src col True env
           = (Inr (),
              banner imp True @ evs0
                @ [Log INFO (BatchesCreated (length addrs) (length bs) (batch_size imp))]
                @ evs2
                @ summary \<lparr>successful_batches = length bs, failed_batches = 0,
                           total_processed = length (concat bs)\<rparr>
                    (length bs) (length addrs))"
    using import_dry_run [of src col addrs evs0 imp bs env] by auto
  show "fst (import_participants imp src col True env) = Inr ()"
    using run by simp
  show "\<exists>pre. snd (import_participants imp src col True env)
              = pre @ [Log INFO SummaryHeader,
                       Log INFO (SummarySuccessful (length bs) (length bs)),
                       Log INFO (SummaryFailed 0 (length bs)),
                       Log INFO (SummaryProcessed (length (concat bs)) (length addrs)),
                       Log INFO AllSucceeded]"
    using run by (simp add: summary_def)
qed

theorem dry_run_never_invokes_witness:
  "invocations (snd (import_participants imp2 csv5 ''address'' True rejects_second)) = []
   \<and> read_csv csv5 ''address'' = (Inr five, [Log INFO (ReadCount 5)]) \<and> five \<noteq> []
   \<and> fst (create_batches imp2 five) = Inr [[''0x1'', ''0x2''], [''0x3'', ''0x4''], [''0x5'']]
   \<and> fst (import_participants imp2 csv5 ''address'' True rejects_second) = Inr ()
   \<and> (\<exists>pre. snd (import_participants imp2 csv5 ''address'' True rejects_second)
         = pre @ [Log INFO SummaryHeader,
                  Log INFO (SummarySuccessful 3 3),
                  Log INFO (SummaryFailed 0 3),
                  Log INFO (SummaryProcessed 5 5),
                  Log INFO AllSucceeded])"
proof -
  have f: "five \<noteq> []" by (simp add: five_def)
  have l: "length five = 5"
    "length [[''0x1'', ''0x2''], [''0x3'', ''0x4''], [''0x5'']] = 3"
    "length (concat [[''0x1'', ''0x2''], [''0x3'', ''0x4''], [''0x5'']]) = 5"
    by (simp_all add: five_def)
  have c: "fst (create_batches imp2 five)
             = Inr [[''0x1'', ''0x2''], [''0x3'', ''0x4''], [''0x5'']]"
    by (simp add: create_batches_five)
  show ?thesis
    using f c read_csv5
      dry_run_never_invokes [of imp2 csv5 "''address''" rejects_second five
        "[Log INFO (ReadCount 5)]" "[[''0x1'', ''0x2''], [''0x3'', ''0x4''], [''0x5'']]",
        unfolded l]
    by simp
qed





text \<open>
  C10. With batch size zero \<^verbatim>\<open>create_batches\<close> raises \<^verbatim>\<open>ValueError\<close>; with a negative
  batch size it returns no batch at all and logs only its usual line at level INFO.
  Nothing before it rejects such a size: started with batch size zero on a source
  with a valid address, \<^verbatim>\<open>main\<close> ends with the uncaught \<^verbatim>\<open>ValueError\<close>; started with a
  negative size, it ends normally, invokes nothing, logs no warning and no error
  beyond those of the reader, and reports 0 of 0 batches and 0 processed addresses
  as a success.
\<close>

theorem nonpositive_batch_size_unchecked:
  "fst (create_batches (imp\<lparr>batch_size := 0\<rparr>) xs) = Inl ValueError
   \<and> (k < 0 \<longrightarrow>
        create_batches (imp\<lparr>batch_size := k\<rparr>) xs
          = (Inr [], [Log INFO (BatchesCreated (length xs) 0 k)]))
   \<and> (read_csv (arg_csv args) (arg_address_column args) = (Inr addrs, evs)
        \<and> addrs \<noteq> [] \<longrightarrow>
        fst (main (args\<lparr>arg_batch_size := 0\<rparr>) env) = Inl (Uncaught ValueError)
        \<and> (k < 0 \<longrightarrow>
             fst (main (args\<lparr>arg_batch_size := k\<rparr>) env) = Inr ()
             \<and> invocations (snd (main (args\<lparr>arg_batch_size := k\<rparr>) env)) = []
             \<and> logged WARNING (snd (main (args\<lparr>arg_batch_size := k\<rparr>) env))
                 = logged WARNING evs
             \<and> logged ERROR (snd (main (args\<lparr>arg_batch_size := k\<rparr>) env))
                 = logged ERROR evs
             \<and> (\<exists>pre. snd (main (args\<lparr>arg_batch_size := k\<rparr>) env)
                   = pre @ [Log INFO SummaryHeader,
                            Log INFO (SummarySuccessful 0 0),
                            Log INFO (SummaryFailed 0 0),
                            Log INFO (SummaryProcessed 0 (length addrs)),
                            Log INFO AllSucceeded])))"
proof (intro conjI impI)
  show "fst (create_batches (imp\<lparr>batch_size := 0\<rparr>) xs) = Inl ValueError"
    by (simp add: create_batches_zero)
next
  assume "k < 0"
  then show "create_batches (imp\<lparr>batch_size := k\<rparr>) xs
          = (Inr [], [Log INFO (BatchesCreated (length xs) 0 k)])"
    using create_batches_negative [of "imp\<lparr>batch_size := k\<rparr>" xs] by simp
next
  assume a: "read_csv (arg_csv args) (arg_address_column args) = (Inr addrs, evs)
        \<and> addrs \<noteq> []"
  then show "fst (main (args\<lparr>arg_batch_size := 0\<rparr>) env) = Inl (Uncaught ValueError)"
    unfolding main_def
    using import_no_batches [of "arg_csv args" "arg_address_column args" addrs evs _
        ValueError "[]", OF _ _ create_batches_zero]
    by simp
next
  assume a: "read_csv (arg_csv args) (arg_address_column args) = (Inr addrs, evs)
        \<and> addrs \<noteq> []" and k: "k < 0"
  let ?imp = "\<lparr>contract_address = arg_contract_address args,
        lottery_id = arg_lottery_id args, batch_size = k, delay = arg_delay args\<rparr>"
  have cb: "create_batches ?imp addrs
              = (Inr [], [Log INFO (BatchesCreated (length addrs) 0 k)])"
    using create_batches_negative [of ?imp addrs] k by simp
  have run: "main (args\<lparr>arg_batch_size := k\<rparr>) env
               = (Inr (),
                  banner ?imp (arg_dry_run args) @ evs
                    @ [Log INFO (BatchesCreated (length addrs) 0 k)]
                    @ summary \<lparr>successful_batches = 0, failed_batches = 0,
                               total_processed = 0\<rparr> 0 (length addrs))"
    unfolding main_def
    using import_run [of "arg_csv args" "arg_address_column args" addrs evs ?imp "[]"
        "[Log INFO (BatchesCreated (length addrs) 0 k)]" "arg_dry_run args" env] a cb
    by simp
  have e: "effects evs = []"
    using read_csv_effects [of "arg_csv args" "arg_address_column args"] a by simp
  show "fst (main (args\<lparr>arg_batch_size := k\<rparr>) env) = Inr ()"
    using run by simp
  show "invocations (snd (main (args\<lparr>arg_batch_size := k\<rparr>) env)) = []"
    using run e invocations_effects [of evs] by (simp add: banner_def summary_def)
  show "logged WARNING (snd (main (args\<lparr>arg_batch_size := k\<rparr>) env)) = logged WARNING evs"
    using run by (simp add: banner_def summary_def)
  show "logged ERROR (snd (main (args\<lparr>arg_batch_size := k\<rparr>) env)) = logged ERROR evs"
    using run by (simp add: banner_def summary_def)
  show "\<exists>pre. snd (main (args\<lparr>arg_batch_size := k\<rparr>) env)
                   = pre @ [Log INFO SummaryHeader,
                            Log INFO (SummarySuccessful 0 0),
                            Log INFO (SummaryFailed 0 0),
                            Log INFO (SummaryProcessed 0 (length addrs)),
                            Log INFO AllSucceeded]"
    using run by (simp add: summary_def)
qed

theorem nonpositive_batch_size_unchecked_witness:
  "(- 1 :: int) < 0
   \<and> read_csv (arg_csv args5) (arg_address_column args5)
       = (Inr five, [Log INFO (ReadCount 5)])
   \<and> five \<noteq> []
   \<and> fst (create_batches (imp2\<lparr>batch_size := 0\<rparr>) five) = Inl ValueError
   \<and> create_batches (imp2\<lparr>batch_size := - 1\<rparr>) five
       = (Inr [], [Log INFO (BatchesCreated 5 0 (- 1))])
   \<and> fst (main (args5\<lparr>arg_batch_size := 0\<rparr>) accepts) = Inl (Uncaught ValueError)
   \<and> fst (main (args5\<lparr>arg_batch_size := - 1\<rparr>) accepts) = Inr ()
   \<and> invocations (snd (main (args5\<lparr>arg_batch_size := - 1\<rparr>) accepts)) = []
   \<and> logged WARNING (snd (main (args5\<lparr>arg_batch_size := - 1\<rparr>) accepts)) = []
   \<and> logged ERROR (snd (main (args5\<lparr>arg_batch_size := - 1\<rparr>) accepts)) = []"
proof -
  have k: "(- 1 :: int) < 0" by simp
  have r: "read_csv (arg_csv args5) (arg_address_column args5)
             = (Inr five, [Log INFO (ReadCount 5)])"
    using read_csv5 by (simp add: args5_def)
  have f: "five \<noteq> []" by (simp add: five_def)
  have l: "length five = 5" by (simp add: five_def)
  show ?thesis
    using k r f
      nonpositive_batch_size_unchecked [of imp2 five "- 1" args5 five
        "[Log INFO (ReadCount 5)]" accepts, unfolded l]
    by simp
qed

end
